theory Spec2Isabelle
  imports Main "HOL-Library.Multiset"
begin

section \<open>SpecterScope: data model\<close>

text \<open>
  The embedding follows \<^verbatim>\<open>specterscope.py\<close>. Python exceptions are values; a
  computation that may raise and that talks to the outside world returns the list of
  external actions it performed together with either the exception or its value.

  \<open>exn\<close> stands for an instance of \<^verbatim>\<open>Exception\<close>, the class every handler of the
  program names (\<^verbatim>\<open>except Exception\<close>). Signals that are not instances of it
  (\<^verbatim>\<open>KeyboardInterrupt\<close>, \<^verbatim>\<open>SystemExit\<close>) are sent to the process, they are not
  outcomes of a lookup, and are not part of the model.
\<close>

datatype exn =
    ValueError string
  | OSError string
  | TimeoutError
  | ClientError string
  | DNSException string
  | AttributeError string
  | OtherException string

text \<open>\<^verbatim>\<open>datetime.date\<close>, and its subclass \<^verbatim>\<open>datetime.datetime\<close>, naive (no time
  zone), as \<^verbatim>\<open>utcnow()\<close> returns it.\<close>

record date =
  year :: nat
  month :: nat
  day :: nat

record datetime = date +
  hour :: nat
  minute :: nat
  second :: nat
  microsecond :: nat

text \<open>The dataclass \<^verbatim>\<open>ReconResult\<close>. A \<^verbatim>\<open>dict\<close> is an association list in
  insertion order, as Python keeps it.\<close>

type_synonym ('k, 'v) dict = "('k \<times> 'v) list"

record ReconResult =
  target :: string
  dns_records :: "(string, string list) dict"
  whois_data :: "(string, string) dict"
  http_headers :: "(string, string) dict"
  timestamp :: datetime

text \<open>\<^verbatim>\<open>d[k] = v\<close>: an existing key keeps its place, a new key goes last.\<close>

fun dict_set :: "('k, 'v) dict \<Rightarrow> 'k \<Rightarrow> 'v \<Rightarrow> ('k, 'v) dict" where
  "dict_set [] k v = [(k, v)]"
| "dict_set ((k', v') # d) k v = (if k' = k then (k, v) # d else (k', v') # dict_set d k v)"

subsection \<open>Text of numbers\<close>

text \<open>\<^verbatim>\<open>str(n)\<close> of an integer, and the zero-padded \<^verbatim>\<open>%0wd\<close>.\<close>

definition digit_char :: "nat \<Rightarrow> char" where
  "digit_char d = ''0123456789'' ! (d mod 10)"

fun str_nat :: "nat \<Rightarrow> string" where
  "str_nat n = (if n < 10 then [digit_char n] else str_nat (n div 10) @ [digit_char n])"

declare str_nat.simps [simp del]

definition str_int :: "int \<Rightarrow> string" where
  "str_int i = (if i < 0 then CHR ''-'' # str_nat (nat (- i)) else str_nat (nat i))"

definition zero_pad :: "nat \<Rightarrow> nat \<Rightarrow> string" where
  "zero_pad width n = replicate (width - length (str_nat n)) CHR ''0'' @ str_nat n"

subsection \<open>The outside world\<close>

text \<open>An answer of the resolver. \<^verbatim>\<open>to_text()\<close> exists on every record;
  \<^verbatim>\<open>exchange\<close> only on an MX record.\<close>

datatype rdata =
    A_record string
  | MX_record nat string
  | Other_record string

fun to_text :: "rdata \<Rightarrow> string" where
  "to_text (A_record addr) = addr"
| "to_text (MX_record pref exch) = str_nat pref @ '' '' @ exch"
| "to_text (Other_record txt) = txt"

fun exchange_to_text :: "rdata \<Rightarrow> exn + string" where
  "exchange_to_text (MX_record pref exch) = Inr exch"
| "exchange_to_text r = Inl (AttributeError ''exchange'')"

text \<open>A field value of a WHOIS entry, as \<^verbatim>\<open>whois_lookup\<close> observes it: its truth
  value (\<^verbatim>\<open>if v\<close>) and its \<^verbatim>\<open>str(v)\<close>.\<close>

record pyval =
  truthy :: bool
  str_of :: string

text \<open>A mapping object that is not a \<^verbatim>\<open>dict\<close>, such as the headers of a response
  (a multidict, where a header name may occur several times), as \<^verbatim>\<open>dict(...)\<close>
  observes it: the keys its \<^verbatim>\<open>keys()\<close> iterates over, in order, and the item
  \<^verbatim>\<open>m[k]\<close> under a key.\<close>

record pymapping =
  mapping_keys :: "string list"
  mapping_item :: "string \<Rightarrow> string"

text \<open>What the server of a URL does with a request: after some time units the head of its
  response, or a transport error, reaches the client; or nothing ever does.\<close>

datatype reply = Answers nat "exn + pymapping" | Silent

text \<open>What the resolver, the registry, the servers and the clock answer.\<close>

record world =
  resolve :: "string \<Rightarrow> string \<Rightarrow> exn + rdata list"
  whois :: "string \<Rightarrow> exn + (string, pyval) dict"
  http_server :: "string \<Rightarrow> reply"
  utcnow :: datetime

text \<open>
  \<^verbatim>\<open>session.get(url, timeout=t)\<close> of the HTTP client, which is not code of this
  program: a number given as \<^verbatim>\<open>timeout\<close> is the client's bound on the total time
  of the request, and a request that is not over when the bound is reached is cancelled and
  raises \<open>TimeoutError\<close>. \<open>session_get\<close> is the outcome of the call (the headers
  of the response, or the exception) and \<open>session_get_time\<close> the time the call lasted.
  The program always passes a timeout, so the client without one is not modelled.
\<close>

definition session_get :: "world \<Rightarrow> string \<Rightarrow> nat \<Rightarrow> exn + pymapping" where
  "session_get w url timeout =
     (case http_server w url of
        Answers d r \<Rightarrow> if d < timeout then r else Inl TimeoutError
      | Silent \<Rightarrow> Inl TimeoutError)"

definition session_get_time :: "world \<Rightarrow> string \<Rightarrow> nat \<Rightarrow> nat" where
  "session_get_time w url timeout =
     (case http_server w url of
        Answers d r \<Rightarrow> if d < timeout then d else timeout
      | Silent \<Rightarrow> timeout)"

text \<open>External actions, in the order the program performs them. A request is
  recorded with its URL, its timeout and the time it lasted.\<close>

datatype json = JStr string | JArr "json list" | JObj "(string \<times> json) list"

datatype io =
    DnsQuery string string
  | WhoisQuery string
  | HttpGet string nat nat
  | Print string
  | OpenRead string
  | WriteFile string json

type_synonym 'a comp = "io list \<times> (exn + 'a)"

definition ret :: "'a \<Rightarrow> 'a comp" where
  "ret x = ([], Inr x)"

definition raise :: "exn \<Rightarrow> 'a comp" where
  "raise e = ([], Inl e)"

definition act :: "io \<Rightarrow> (exn + 'a) \<Rightarrow> 'a comp" where
  "act a r = ([a], r)"

definition and_then :: "'a comp \<Rightarrow> ('a \<Rightarrow> 'b comp) \<Rightarrow> 'b comp" where
  "and_then m f =
     (case m of
        (l, Inl e) \<Rightarrow> (l, Inl e)
      | (l, Inr x) \<Rightarrow> (case f x of (l', r) \<Rightarrow> (l @ l', r)))"

text \<open>\<^verbatim>\<open>try: body  except Exception: handler\<close>\<close>

definition try_except :: "'a comp \<Rightarrow> 'a comp \<Rightarrow> 'a comp" where
  "try_except body handler =
     (case body of
        (l, Inl e) \<Rightarrow> (case handler of (l', r) \<Rightarrow> (l @ l', r))
      | (l, Inr x) \<Rightarrow> (l, Inr x))"

text \<open>A list comprehension whose element expression may raise.\<close>

fun comprehension :: "('a \<Rightarrow> exn + 'b) \<Rightarrow> 'a list \<Rightarrow> exn + 'b list" where
  "comprehension f [] = Inr []"
| "comprehension f (x # xs) =
     (case f x of
        Inl e \<Rightarrow> Inl e
      | Inr y \<Rightarrow> (case comprehension f xs of Inl e \<Rightarrow> Inl e | Inr ys \<Rightarrow> Inr (y # ys)))"

section \<open>Recon functions\<close>

text \<open>\<^verbatim>\<open>dict(m)\<close> of a mapping object: for each key of \<^verbatim>\<open>m.keys()\<close> in turn,
  \<^verbatim>\<open>d[k] = m[k]\<close>.\<close>

definition dict_of_mapping :: "pymapping \<Rightarrow> (string, string) dict" where
  "dict_of_mapping m = foldl (\<lambda>d k. dict_set d k (mapping_item m k)) [] (mapping_keys m)"

text \<open>\<^verbatim>\<open>fetch_http_headers(session, url)\<close>\<close>

definition fetch_http_headers :: "world \<Rightarrow> string \<Rightarrow> (string, string) dict comp" where
  "fetch_http_headers w url =
     try_except
       (and_then (act (HttpGet url 5 (session_get_time w url 5)) (session_get w url 5))
          (\<lambda>headers. ret (dict_of_mapping headers)))
       (ret [])"

text \<open>\<^verbatim>\<open>dns_lookup(target)\<close>: the dictionary \<open>records\<close> is threaded through the two
  \<^verbatim>\<open>try\<close> statements.\<close>

definition dns_lookup :: "world \<Rightarrow> string \<Rightarrow> (string, string list) dict comp" where
  "dns_lookup w tgt =
     and_then
       (try_except
          (and_then (act (DnsQuery tgt ''A'') (resolve w tgt ''A'')) (\<lambda>answers.
             ret (dict_set [] ''A'' (map to_text answers))))
          (ret (dict_set [] ''A'' [])))
       (\<lambda>records.
          try_except
            (and_then (act (DnsQuery tgt ''MX'') (resolve w tgt ''MX'')) (\<lambda>answers.
             and_then ([], comprehension exchange_to_text answers) (\<lambda>texts.
               ret (dict_set records ''MX'' texts))))
            (ret (dict_set records ''MX'' [])))"

text \<open>\<^verbatim>\<open>{k: str(v) for k, v in w.items() if v}\<close>\<close>

fun whois_comprehension ::
  "(string, string) dict \<Rightarrow> (string \<times> pyval) list \<Rightarrow> (string, string) dict" where
  "whois_comprehension acc [] = acc"
| "whois_comprehension acc ((k, v) # items) =
     (if truthy v then whois_comprehension (dict_set acc k (str_of v)) items
      else whois_comprehension acc items)"

text \<open>\<^verbatim>\<open>whois_lookup(target)\<close>\<close>

definition whois_lookup :: "world \<Rightarrow> string \<Rightarrow> (string, string) dict comp" where
  "whois_lookup w tgt =
     try_except
       (and_then (act (WhoisQuery tgt) (whois w tgt)) (\<lambda>entry.
          ret (whois_comprehension [] entry)))
       (ret [])"

text \<open>\<^verbatim>\<open>recon_target(session, target)\<close>\<close>

definition recon_target :: "world \<Rightarrow> string \<Rightarrow> ReconResult comp" where
  "recon_target w tgt =
     and_then (dns_lookup w tgt) (\<lambda>dns.
     and_then (whois_lookup w tgt) (\<lambda>who.
     and_then (fetch_http_headers w (''http://'' @ tgt)) (\<lambda>hdrs.
       ret \<lparr>target = tgt, dns_records = dns, whois_data = who,
            http_headers = hdrs, timestamp = utcnow w\<rparr>)))"

section \<open>JSON converter and report\<close>

text \<open>\<^verbatim>\<open>date.isoformat()\<close> and \<^verbatim>\<open>datetime.isoformat()\<close> (the fraction is printed
  when the microseconds are not zero).\<close>

definition date_isoformat :: "'a date_scheme \<Rightarrow> string" where
  "date_isoformat d =
     zero_pad 4 (year d) @ ''-'' @ zero_pad 2 (month d) @ ''-'' @ zero_pad 2 (day d)"

definition datetime_isoformat :: "datetime \<Rightarrow> string" where
  "datetime_isoformat t =
     date_isoformat t @ ''T'' @ zero_pad 2 (hour t) @ '':'' @ zero_pad 2 (minute t) @ '':'' @
     zero_pad 2 (second t) @
     (if microsecond t = 0 then [] else ''.'' @ zero_pad 6 (microsecond t))"

text \<open>An object the JSON encoder has no native form for, so that it calls
  \<^verbatim>\<open>default\<close>: a datetime, a date, or an object of another class, which carries its
  \<^verbatim>\<open>str()\<close>.\<close>

datatype pyother = PDatetime datetime | PDate date | PObject string

text \<open>\<^verbatim>\<open>json_converter(o)\<close>\<close>

fun json_converter :: "pyother \<Rightarrow> string" where
  "json_converter (PDatetime t) = datetime_isoformat t"
| "json_converter (PDate d) = date_isoformat d"
| "json_converter (PObject s) = s"

text \<open>The Python values a report is made of.\<close>

datatype pyobj =
    PStr string
  | PList "pyobj list"
  | PDict "(string \<times> pyobj) list"
  | POther pyother

text \<open>\<^verbatim>\<open>dataclasses.asdict\<close> on a \<^verbatim>\<open>ReconResult\<close>.\<close>

definition asdict :: "ReconResult \<Rightarrow> pyobj" where
  "asdict r =
     PDict [(''target'', PStr (target r)),
            (''dns_records'', PDict (map (\<lambda>(k, v). (k, PList (map PStr v))) (dns_records r))),
            (''whois_data'', PDict (map (\<lambda>(k, v). (k, PStr v)) (whois_data r))),
            (''http_headers'', PDict (map (\<lambda>(k, v). (k, PStr v)) (http_headers r))),
            (''timestamp'', POther (PDatetime (timestamp r)))]"

text \<open>\<^verbatim>\<open>json.dump(obj, f, default=dflt)\<close> and \<^verbatim>\<open>json.load\<close>, between Python values
  and the document's value tree; the text of the document is the codec's own.\<close>

primrec json_dump :: "(pyother \<Rightarrow> string) \<Rightarrow> pyobj \<Rightarrow> json" where
  "json_dump dflt (PStr s) = JStr s"
| "json_dump dflt (PList xs) = JArr (map (json_dump dflt) xs)"
| "json_dump dflt (PDict kvs) = JObj (map (map_prod id (json_dump dflt)) kvs)"
| "json_dump dflt (POther ob) = JStr (dflt ob)"



section \<open>Main async: the bounded scheduler\<close>

text \<open>
  \<^verbatim>\<open>run_recon\<close> runs on one event loop: between two suspension points a task runs
  alone. A task \<^verbatim>\<open>bound_recon(t)\<close> is \<open>Pending\<close> until it holds the semaphore,
  \<open>Running\<close> while it is inside \<^verbatim>\<open>async with sem\<close>, and \<open>Completed\<close> once
  \<^verbatim>\<open>recon_target\<close> has returned and the semaphore is released. The loop over
  \<^verbatim>\<open>asyncio.as_completed\<close> takes finished tasks in the order they finished.
\<close>

datatype phase = Pending | Running | Completed

record sched =
  sem_value :: nat
  tasks :: "(string \<times> phase) list"
  done_queue :: "(exn + ReconResult) list"
  results :: "ReconResult list"
  raised :: "exn option"
  trace :: "io list"

text \<open>What the event loop may do next. \<open>Finish i w\<close>: the lookups of task \<open>i\<close> have
  answered as \<open>w\<close> says.\<close>

datatype event = Acquire nat | Finish nat world | Collect

text \<open>\<^verbatim>\<open>async with sem:\<close> entered by task \<open>i\<close>: possible when the counter is positive.\<close>

definition acquire :: "nat \<Rightarrow> sched \<Rightarrow> sched option" where
  "acquire i s =
     (if raised s = None \<and> i < length (tasks s) \<and> snd (tasks s ! i) = Pending \<and> 0 < sem_value s
      then Some (s\<lparr>sem_value := sem_value s - 1,
                    tasks := (tasks s)[i := (fst (tasks s ! i), Running)]\<rparr>)
      else None)"

text \<open>\<^verbatim>\<open>return await recon_target(session, t)\<close> and the exit of \<^verbatim>\<open>async with sem\<close>,
  which releases the semaphore whether the body returned or raised. The trace receives the
  lookups of a probe when the probe completes; the program issues the DNS and WHOIS queries
  and starts the request when the probe is admitted, so the trace keeps the order of the
  lookups of one probe but not the interleaving of the lookups of different probes.\<close>

definition finish :: "nat \<Rightarrow> world \<Rightarrow> sched \<Rightarrow> sched option" where
  "finish i w s =
     (if raised s = None \<and> i < length (tasks s) \<and> snd (tasks s ! i) = Running
      then (case recon_target w (fst (tasks s ! i)) of
              (calls, r) \<Rightarrow>
                Some (s\<lparr>sem_value := sem_value s + 1,
                         tasks := (tasks s)[i := (fst (tasks s ! i), Completed)],
                         done_queue := done_queue s @ [r],
                         trace := trace s @ calls\<rparr>))
      else None)"

text \<open>One round of \<^verbatim>\<open>for future in asyncio.as_completed(tasks)\<close>:
  \<^verbatim>\<open>result = await future\<close>, \<^verbatim>\<open>results.append(result)\<close>, \<^verbatim>\<open>print(...)\<close>.\<close>

definition collect :: "sched \<Rightarrow> sched option" where
  "collect s =
     (if raised s = None
      then (case done_queue s of
              [] \<Rightarrow> None
            | Inl e # q \<Rightarrow> Some (s\<lparr>done_queue := q, raised := Some e\<rparr>)
            | Inr r # q \<Rightarrow>
                Some (s\<lparr>done_queue := q, results := results s @ [r],
                         trace := trace s @ [Print (''[INFO] Finished recon for '' @ target r)]\<rparr>))
      else None)"

fun fire :: "event \<Rightarrow> sched \<Rightarrow> sched option" where
  "fire (Acquire i) s = acquire i s"
| "fire (Finish i w) s = finish i w s"
| "fire Collect s = collect s"

text \<open>A schedule is a list of events; it is a run when each event is possible in turn.\<close>

fun exec :: "event list \<Rightarrow> sched \<Rightarrow> sched option" where
  "exec [] s = Some s"
| "exec (ev # evs) s = (case fire ev s of None \<Rightarrow> None | Some s' \<Rightarrow> exec evs s')"

text \<open>The loop of \<^verbatim>\<open>run_recon\<close> is over when an awaited task raised, or when every task
  has completed and has been collected.\<close>

definition final :: "sched \<Rightarrow> bool" where
  "final s =
     (case raised s of
        Some e \<Rightarrow> True
      | None \<Rightarrow> list_all (\<lambda>tp. snd tp = Completed) (tasks s) \<and> done_queue s = [])"

definition running :: "sched \<Rightarrow> nat" where
  "running s = length (filter (\<lambda>tp. snd tp = Running) (tasks s))"

text \<open>\<^verbatim>\<open>sem = asyncio.Semaphore(concurrency)\<close> raises \<^verbatim>\<open>ValueError\<close> on a negative
  value; \<^verbatim>\<open>tasks = [bound_recon(t) for t in targets]\<close>.\<close>

definition run_recon_init :: "string list \<Rightarrow> int \<Rightarrow> exn + sched" where
  "run_recon_init targets concurrency =
     (if concurrency < 0 then Inl (ValueError ''Semaphore initial value must be >= 0'')
      else Inr \<lparr>sem_value = nat concurrency, tasks = map (\<lambda>t. (t, Pending)) targets,
                done_queue = [], results = [], raised = None, trace = []\<rparr>)"

text \<open>How a call ends: it returns, it raises, or the schedule ends with the call still
  waiting.\<close>

datatype 'a outcome = Returned 'a | Raised exn | Waiting

text \<open>\<^verbatim>\<open>run_recon(targets, concurrency)\<close> under a schedule: \<open>None\<close> when the schedule
  is not a run of it.\<close>

definition run_recon ::
  "string list \<Rightarrow> int \<Rightarrow> event list \<Rightarrow> (io list \<times> ReconResult list outcome) option" where
  "run_recon targets concurrency evs =
     (case run_recon_init targets concurrency of
        Inl e \<Rightarrow> Some ([], Raised e)
      | Inr s0 \<Rightarrow>
          (case exec evs s0 of
             None \<Rightarrow> None
           | Some s \<Rightarrow>
               Some (trace s,
                     (case raised s of
                        Some e \<Rightarrow> Raised e
                      | None \<Rightarrow> if final s then Returned (results s) else Waiting))))"

section \<open>CLI\<close>

text \<open>The parsed command line: \<^verbatim>\<open>args.target\<close>, \<^verbatim>\<open>args.list\<close> (\<open>None\<close> when the
  option is absent) and \<^verbatim>\<open>args.concurrency\<close> (\<^verbatim>\<open>type=int\<close>, default 5).\<close>

record args =
  args_target :: "string option"
  args_list :: "string option"
  args_concurrency :: int

text \<open>The files: the lines iterating over an opened file yields, or the error
  \<^verbatim>\<open>open\<close> raises; and the error of opening a file for writing, if any.\<close>

record filesystem =
  read_lines :: "string \<Rightarrow> exn + string list"
  write_error :: "string \<Rightarrow> exn option"

text \<open>\<^verbatim>\<open>str.strip()\<close>, on strings of code points below 256.\<close>

definition isspace :: "char \<Rightarrow> bool" where
  "isspace c =
     (c \<in> set [CHR 0x09, CHR 0x0A, CHR 0x0B, CHR 0x0C, CHR 0x0D, CHR 0x1C, CHR 0x1D, CHR 0x1E,
               CHR 0x1F, CHR 0x20, CHR 0x85, CHR 0xA0])"

definition strip :: "string \<Rightarrow> string" where
  "strip s = rev (dropWhile isspace (rev (dropWhile isspace s)))"

text \<open>The truth value of an optional string: \<^verbatim>\<open>None\<close> and \<^verbatim>\<open>''\<close> are false.\<close>

fun given :: "string option \<Rightarrow> bool" where
  "given None = False"
| "given (Some s) = (s \<noteq> [])"

text \<open>The block \<^verbatim>\<open># Collect targets\<close> of \<^verbatim>\<open>run_cli\<close>; \<open>None\<close> is its
  \<^verbatim>\<open>return\<close>.\<close>

definition collect_targets :: "filesystem \<Rightarrow> args \<Rightarrow> string list option comp" where
  "collect_targets fs a =
     (if given (args_target a) then ret (Some [the (args_target a)])
      else if given (args_list a) then
        and_then (act (OpenRead (the (args_list a))) (read_lines fs (the (args_list a)))) (\<lambda>f.
          ret (Some (map strip (filter (\<lambda>line. strip line \<noteq> []) f))))
      else
        and_then (act (Print ''Please provide -t <target> or -l <file>'') (Inr ())) (\<lambda>u.
          ret None))"

definition starting_line :: "string list \<Rightarrow> int \<Rightarrow> string" where
  "starting_line targets concurrency =
     ''[INFO] Starting SpecterScope recon for '' @ str_nat (length targets) @
     '' target(s) with concurrency='' @ str_int concurrency"

definition report_file :: string where
  "report_file = ''specterscope_report.json''"

text \<open>\<^verbatim>\<open>run_cli()\<close>, given the files, the schedule of the event loop and the parsed
  arguments.\<close>

definition run_cli ::
  "filesystem \<Rightarrow> event list \<Rightarrow> args \<Rightarrow> (io list \<times> unit outcome) option" where
  "run_cli fs evs a =
     (case collect_targets fs a of
        (l, Inl e) \<Rightarrow> Some (l, Raised e)
      | (l, Inr None) \<Rightarrow> Some (l, Returned ())
      | (l, Inr (Some targets)) \<Rightarrow>
          (case run_recon targets (args_concurrency a) evs of
             None \<Rightarrow> None
           | Some (l', Raised e) \<Rightarrow>
               Some (l @ [Print (starting_line targets (args_concurrency a))] @ l', Raised e)
           | Some (l', Waiting) \<Rightarrow>
               Some (l @ [Print (starting_line targets (args_concurrency a))] @ l', Waiting)
           | Some (l', Returned reports) \<Rightarrow>
               (case write_error fs report_file of
                  Some e \<Rightarrow>
                    Some (l @ [Print (starting_line targets (args_concurrency a))] @ l', Raised e)
                | None \<Rightarrow>
                    Some (l @ [Print (starting_line targets (args_concurrency a))] @ l' @
                          [WriteFile report_file
                             (json_dump json_converter (PList (map asdict reports))),
                           Print ''[INFO] Recon complete. Results saved to specterscope_report.json''],
                          Returned ()))))"

section \<open>Quantities of a scheduler state\<close>

text \<open>Used to state and prove the properties of the scheduler: the number of pending
  tasks, the number of events a state still allows, the targets of the completed tasks and
  of the records waiting in the queue, and the invariant relating them.\<close>

definition pending :: "sched \<Rightarrow> nat" where
  "pending s = length (filter (\<lambda>tp. snd tp = Pending) (tasks s))"

definition remaining :: "sched \<Rightarrow> nat" where
  "remaining s = 3 * pending s + 2 * running s + length (done_queue s)"

definition completed_targets :: "sched \<Rightarrow> string multiset" where
  "completed_targets s = mset (map fst (filter (\<lambda>tp. snd tp = Completed) (tasks s)))"

fun returned_target :: "exn + ReconResult \<Rightarrow> string multiset" where
  "returned_target (Inl e) = {#}"
| "returned_target (Inr r) = {#target r#}"

definition queued_targets :: "sched \<Rightarrow> string multiset" where
  "queued_targets s = (\<Sum>x\<in>#mset (done_queue s). returned_target x)"

definition sound :: "sched \<Rightarrow> bool" where
  "sound s = (raised s = None \<and> list_all (\<lambda>x. \<not> isl x) (done_queue s) \<and>
     mset (map target (results s)) + queued_targets s = completed_targets s)"

section \<open>Concrete inputs\<close>

text \<open>Two states of the outside world, used to run the definitions on concrete inputs:
  one where every lookup fails, one where every lookup answers.\<close>

definition world_down :: world where
  "world_down =
     \<lparr>resolve = (\<lambda>t c. Inl (DNSException ''NXDOMAIN'')),
      whois = (\<lambda>t. Inl (OtherException ''connection reset'')),
      http_server = (\<lambda>url. Silent),
      utcnow = \<lparr>year = 2024, month = 5, day = 17, hour = 9, minute = 30, second = 0,
                microsecond = 0\<rparr>\<rparr>"

definition world_up :: world where
  "world_up =
     \<lparr>resolve = (\<lambda>t c. if c = ''A'' then Inr [A_record ''192.0.2.1'']
                        else Inr [MX_record 10 ''mail.a.test.'']),
      whois = (\<lambda>t. Inr [(''domain_name'', \<lparr>truthy = True, str_of = ''A.TEST''\<rparr>),
                         (''org'', \<lparr>truthy = False, str_of = ''None''\<rparr>)]),
      http_server = (\<lambda>url. Answers 2
        (Inr \<lparr>mapping_keys = [''Server'', ''Set-Cookie'', ''Set-Cookie''],
              mapping_item = (\<lambda>k. if k = ''Server'' then ''nginx'' else ''a=1'')\<rparr>)),
      utcnow = \<lparr>year = 2024, month = 5, day = 17, hour = 9, minute = 30, second = 0,
                microsecond = 250\<rparr>\<rparr>"

definition schedule_two :: "event list" where
  "schedule_two =
     [Acquire 0, Finish 0 world_down, Collect, Acquire 1, Finish 1 world_up, Collect]"



definition files_example :: filesystem where
  "files_example =
     \<lparr>read_lines = (\<lambda>path.
        if path = ''targets.txt'' then Inr [''a.test\<newline>'', ''\<newline>'', '' b.test \<newline>'']
        else if path = ''empty.txt'' then Inr []
        else Inl (OSError ''No such file or directory'')),
      write_error = (\<lambda>path. None)\<rparr>"

definition args_empty_target :: args where
  "args_empty_target = \<lparr>args_target = Some [], args_list = Some ''targets.txt'', args_concurrency = 5\<rparr>"

definition args_both :: args where
  "args_both = \<lparr>args_target = Some ''a.test'', args_list = Some ''targets.txt'', args_concurrency = 1\<rparr>"

definition args_zero_empty :: args where
  "args_zero_empty = \<lparr>args_target = None, args_list = Some ''empty.txt'', args_concurrency = 0\<rparr>"

definition args_negative :: args where
  "args_negative = \<lparr>args_target = None, args_list = Some ''targets.txt'', args_concurrency = - 1\<rparr>"

definition args_zero :: args where
  "args_zero = \<lparr>args_target = Some ''a.test'', args_list = None, args_concurrency = 0\<rparr>"

section \<open>Properties of the recon functions\<close>

lemmas comp_defs = ret_def raise_def act_def and_then_def try_except_def

lemma fetch_http_headers_eq:
  "fetch_http_headers w url =
     ([HttpGet url 5 (session_get_time w url 5)],
      Inr (case session_get w url 5 of Inl e \<Rightarrow> [] | Inr m \<Rightarrow> dict_of_mapping m))"
  by (simp add: fetch_http_headers_def comp_defs split: sum.splits)

lemma dns_lookup_eq:
  "dns_lookup w t =
     ([DnsQuery t ''A'', DnsQuery t ''MX''],
      Inr [(''A'', (case resolve w t ''A'' of Inl e \<Rightarrow> [] | Inr answers \<Rightarrow> map to_text answers)),
           (''MX'', (case resolve w t ''MX'' of Inl e \<Rightarrow> [] | Inr answers \<Rightarrow>
              (case comprehension exchange_to_text answers of Inl e \<Rightarrow> [] | Inr texts \<Rightarrow> texts)))])"
  by (simp add: dns_lookup_def comp_defs split: sum.splits)

lemma whois_lookup_eq:
  "whois_lookup w t =
     ([WhoisQuery t],
      Inr (case whois w t of Inl e \<Rightarrow> [] | Inr entry \<Rightarrow> whois_comprehension [] entry))"
  by (simp add: whois_lookup_def comp_defs split: sum.splits)

lemma recon_target_eq:
  "recon_target w t =
     ([DnsQuery t ''A'', DnsQuery t ''MX'', WhoisQuery t,
       HttpGet (''http://'' @ t) 5 (session_get_time w (''http://'' @ t) 5)],
      Inr \<lparr>target = t,
           dns_records =
             [(''A'', (case resolve w t ''A'' of Inl e \<Rightarrow> [] | Inr answers \<Rightarrow> map to_text answers)),
              (''MX'', (case resolve w t ''MX'' of Inl e \<Rightarrow> [] | Inr answers \<Rightarrow>
                 (case comprehension exchange_to_text answers of Inl e \<Rightarrow> [] | Inr texts \<Rightarrow> texts)))],
           whois_data = (case whois w t of Inl e \<Rightarrow> [] | Inr entry \<Rightarrow> whois_comprehension [] entry),
           http_headers =
             (case session_get w (''http://'' @ t) 5 of Inl e \<Rightarrow> [] | Inr m \<Rightarrow> dict_of_mapping m),
           timestamp = utcnow w\<rparr>)"
  unfolding recon_target_def dns_lookup_eq whois_lookup_eq fetch_http_headers_eq
  by (simp add: and_then_def ret_def)

lemma recon_target_returns:
  "\<exists>calls r. recon_target w t = (calls, Inr r) \<and> target r = t"
  by (simp add: recon_target_eq)

lemma dict_set_fresh: "k \<notin> fst ` set d \<Longrightarrow> dict_set d k v = d @ [(k, v)]"
  by (induction d) auto






lemma whois_comprehension_distinct:
  "distinct (map fst acc @ map fst items) \<Longrightarrow>
   whois_comprehension acc items =
     acc @ map (\<lambda>(k, v). (k, str_of v)) (filter (\<lambda>(k, v). truthy v) items)"
proof (induction items arbitrary: acc)
  case Nil
  then show ?case by simp
next
  case (Cons kv items)
  obtain k v where kv: "kv = (k, v)" by (cases kv)
  show ?case
  proof (cases "truthy v")
    case True
    have fresh: "k \<notin> fst ` set acc" using Cons.prems kv by auto
    have "distinct (map fst (acc @ [(k, str_of v)]) @ map fst items)"
      using Cons.prems kv by auto
    then show ?thesis
      using Cons.IH[of "acc @ [(k, str_of v)]"] True kv fresh
      by (simp add: dict_set_fresh)
  next
    case False
    have "distinct (map fst acc @ map fst items)" using Cons.prems kv by auto
    then show ?thesis using Cons.IH[of acc] False kv by simp
  qed
qed

section \<open>Properties of the scheduler\<close>

subsection \<open>Counting tasks\<close>

lemma filter_update_length:
  "i < length xs \<Longrightarrow>
   length (filter P (xs[i := y])) + (if P (xs ! i) then 1 else 0) =
   length (filter P xs) + (if P y then 1 else 0)"
proof (induction xs arbitrary: i)
  case Nil
  then show ?case by simp
next
  case (Cons x xs)
  show ?case
  proof (cases i)
    case 0
    then show ?thesis by simp
  next
    case (Suc j)
    then have "j < length xs" using Cons.prems by simp
    from Cons.IH[OF this] Suc show ?thesis by simp
  qed
qed

lemma filter_update_mset:
  "i < length xs \<Longrightarrow>
   mset (filter P (xs[i := y])) + (if P (xs ! i) then {#xs ! i#} else {#}) =
   mset (filter P xs) + (if P y then {#y#} else {#})"
proof (induction xs arbitrary: i)
  case Nil
  then show ?case by simp
next
  case (Cons x xs)
  show ?case
  proof (cases i)
    case 0
    then show ?thesis by simp
  next
    case (Suc j)
    then have "j < length xs" using Cons.prems by simp
    from Cons.IH[OF this] Suc show ?thesis by (auto split: if_splits)
  qed
qed

lemma map_fst_update_same:
  "i < length xs \<Longrightarrow> map fst (xs[i := (fst (xs ! i), p)]) = map fst xs"
  by (induction xs arbitrary: i) (auto split: nat.splits)

subsection \<open>One event\<close>

lemma acquire_effect:
  assumes "acquire i s = Some s'"
  shows "0 < sem_value s" "sem_value s' + 1 = sem_value s" "running s' = running s + 1"
    "pending s' + 1 = pending s" "done_queue s' = done_queue s" "results s' = results s"
    "raised s' = None" "raised s = None" "map fst (tasks s') = map fst (tasks s)"
    "completed_targets s' = completed_targets s"
proof -
  from assms have g: "raised s = None" "i < length (tasks s)" "snd (tasks s ! i) = Pending"
    "0 < sem_value s"
    and s': "s' = s\<lparr>sem_value := sem_value s - 1,
                  tasks := (tasks s)[i := (fst (tasks s ! i), Running)]\<rparr>"
    by (auto simp: acquire_def split: if_splits)
  show "0 < sem_value s" by (rule g)
  show "sem_value s' + 1 = sem_value s" using g s' by simp
  show "running s' = running s + 1"
    using filter_update_length[OF g(2), of "\<lambda>tp. snd tp = Running" "(fst (tasks s ! i), Running)"] g s'
    by (simp add: running_def)
  show "pending s' + 1 = pending s"
    using filter_update_length[OF g(2), of "\<lambda>tp. snd tp = Pending" "(fst (tasks s ! i), Running)"] g s'
    by (simp add: pending_def)
  show "done_queue s' = done_queue s" "results s' = results s" "raised s' = None" "raised s = None"
    using g s' by simp_all
  show "map fst (tasks s') = map fst (tasks s)"
    using g s' by (simp add: map_fst_update_same)
  show "completed_targets s' = completed_targets s"
    using filter_update_mset[OF g(2), of "\<lambda>tp. snd tp = Completed" "(fst (tasks s ! i), Running)"] g s'
    by (simp add: completed_targets_def)
qed

lemma finish_effect:
  assumes "finish i w s = Some s'"
  shows "sem_value s' = sem_value s + 1" "running s' + 1 = running s"
    "pending s' = pending s" "results s' = results s"
    "raised s' = None" "raised s = None" "map fst (tasks s') = map fst (tasks s)"
    "\<exists>r. done_queue s' = done_queue s @ [Inr r] \<and>
         completed_targets s' = completed_targets s + {#target r#}"
proof -
  from assms have g: "raised s = None" "i < length (tasks s)" "snd (tasks s ! i) = Running"
    by (auto simp: finish_def split: if_splits)
  obtain calls r where rt: "recon_target w (fst (tasks s ! i)) = (calls, Inr r)"
    and tr: "target r = fst (tasks s ! i)"
    using recon_target_returns by blast
  from assms g rt have s': "s' = s\<lparr>sem_value := sem_value s + 1,
       tasks := (tasks s)[i := (fst (tasks s ! i), Completed)],
       done_queue := done_queue s @ [Inr r], trace := trace s @ calls\<rparr>"
    by (simp add: finish_def)
  show "sem_value s' = sem_value s + 1" using s' by simp
  show "running s' + 1 = running s"
    using filter_update_length[OF g(2), of "\<lambda>tp. snd tp = Running" "(fst (tasks s ! i), Completed)"] g s'
    by (simp add: running_def)
  show "pending s' = pending s"
    using filter_update_length[OF g(2), of "\<lambda>tp. snd tp = Pending" "(fst (tasks s ! i), Completed)"] g s'
    by (simp add: pending_def)
  show "results s' = results s" "raised s' = None" "raised s = None"
    using g s' by simp_all
  show "map fst (tasks s') = map fst (tasks s)"
    using g s' by (simp add: map_fst_update_same)
  have "completed_targets s' = completed_targets s + {#target r#}"
    using filter_update_mset[OF g(2), of "\<lambda>tp. snd tp = Completed" "(fst (tasks s ! i), Completed)"] g s' tr
    by (simp add: completed_targets_def)
  then show "\<exists>r. done_queue s' = done_queue s @ [Inr r] \<and>
         completed_targets s' = completed_targets s + {#target r#}"
    using s' by auto
qed

lemma collect_effect:
  assumes "collect s = Some s'" "list_all (\<lambda>x. \<not> isl x) (done_queue s)"
  shows "sem_value s' = sem_value s" "running s' = running s" "pending s' = pending s"
    "raised s' = None" "raised s = None" "tasks s' = tasks s"
    "\<exists>r. done_queue s = Inr r # done_queue s' \<and> results s' = results s @ [r]"
proof -
  from assms(1) have g: "raised s = None" "done_queue s \<noteq> []"
    by (auto simp: collect_def split: if_splits list.splits)
  then obtain r q where q: "done_queue s = Inr r # q"
    using assms(2) by (cases "done_queue s"; cases "hd (done_queue s)") auto
  from assms(1) g q have s': "s' = s\<lparr>done_queue := q, results := results s @ [r],
       trace := trace s @ [Print (''[INFO] Finished recon for '' @ target r)]\<rparr>"
    by (simp add: collect_def)
  show "sem_value s' = sem_value s" "running s' = running s" "pending s' = pending s"
    "raised s' = None" "raised s = None" "tasks s' = tasks s"
    using g s' by (simp_all add: running_def pending_def)
  show "\<exists>r. done_queue s = Inr r # done_queue s' \<and> results s' = results s @ [r]"
    using q s' by simp
qed

lemma fire_sound:
  assumes "fire ev s = Some s'" "sound s"
  shows "sound s'"
proof (cases ev)
  case (Acquire i)
  with assms(1) have a: "acquire i s = Some s'" by simp
  show ?thesis
    using assms(2) acquire_effect[OF a]
    by (simp add: sound_def queued_targets_def)
next
  case (Finish i w)
  with assms(1) have f: "finish i w s = Some s'" by simp
  from finish_effect(8)[OF f] obtain r where
    "done_queue s' = done_queue s @ [Inr r]"
    "completed_targets s' = completed_targets s + {#target r#}" by blast
  then show ?thesis
    using assms(2) finish_effect(1-7)[OF f]
    by (simp add: sound_def queued_targets_def)
next
  case Collect
  with assms(1) have c: "collect s = Some s'" by simp
  have q: "list_all (\<lambda>x. \<not> isl x) (done_queue s)" using assms(2) by (simp add: sound_def)
  from collect_effect(7)[OF c q] obtain r where
    "done_queue s = Inr r # done_queue s'" "results s' = results s @ [r]" by blast
  then show ?thesis
    using assms(2) collect_effect(1-6)[OF c q]
    by (simp add: sound_def queued_targets_def completed_targets_def)
qed

lemma fire_gate:
  assumes "fire ev s = Some s'" "sound s"
  shows "sem_value s' + running s' = sem_value s + running s"
    and "map fst (tasks s') = map fst (tasks s)"
    and "remaining s' + 1 = remaining s"
proof -
  have q: "list_all (\<lambda>x. \<not> isl x) (done_queue s)" using assms(2) by (simp add: sound_def)
  show "sem_value s' + running s' = sem_value s + running s"
  proof (cases ev)
    case (Acquire i)
    with assms(1) have a: "acquire i s = Some s'" by simp
    show ?thesis using acquire_effect(2,3)[OF a] by simp
  next
    case (Finish i w)
    with assms(1) have f: "finish i w s = Some s'" by simp
    show ?thesis using finish_effect(1,2)[OF f] by simp
  next
    case Collect
    with assms(1) have c: "collect s = Some s'" by simp
    show ?thesis using collect_effect(1,2)[OF c q] by simp
  qed
  show "map fst (tasks s') = map fst (tasks s)"
  proof (cases ev)
    case (Acquire i)
    with assms(1) have a: "acquire i s = Some s'" by simp
    show ?thesis using acquire_effect(9)[OF a] .
  next
    case (Finish i w)
    with assms(1) have f: "finish i w s = Some s'" by simp
    show ?thesis using finish_effect(7)[OF f] .
  next
    case Collect
    with assms(1) have c: "collect s = Some s'" by simp
    show ?thesis using collect_effect(6)[OF c q] by simp
  qed
  show "remaining s' + 1 = remaining s"
  proof (cases ev)
    case (Acquire i)
    with assms(1) have a: "acquire i s = Some s'" by simp
    show ?thesis using acquire_effect(3,4,5)[OF a] by (simp add: remaining_def)
  next
    case (Finish i w)
    with assms(1) have f: "finish i w s = Some s'" by simp
    from finish_effect(8)[OF f] have "length (done_queue s') = length (done_queue s) + 1" by auto
    then show ?thesis using finish_effect(2,3)[OF f] by (simp add: remaining_def)
  next
    case Collect
    with assms(1) have c: "collect s = Some s'" by simp
    from collect_effect(7)[OF c q] have "length (done_queue s) = length (done_queue s') + 1" by auto
    then show ?thesis using collect_effect(2,3)[OF c q] by (simp add: remaining_def)
  qed
qed

subsection \<open>Runs\<close>

lemma exec_append:
  "exec (evs @ evs') s = (case exec evs s of None \<Rightarrow> None | Some s' \<Rightarrow> exec evs' s')"
  by (induction evs arbitrary: s) (auto split: option.splits)

lemma exec_invariant:
  "exec evs s = Some s' \<Longrightarrow> sound s \<Longrightarrow>
   sound s' \<and> sem_value s' + running s' = sem_value s + running s \<and>
   map fst (tasks s') = map fst (tasks s) \<and> remaining s' + length evs = remaining s"
proof (induction evs arbitrary: s)
  case Nil
  then show ?case by simp
next
  case (Cons ev evs)
  then obtain s1 where s1: "fire ev s = Some s1" "exec evs s1 = Some s'"
    by (auto split: option.splits)
  from Cons.IH[OF s1(2) fire_sound[OF s1(1) Cons.prems(2)]]
    fire_gate[OF s1(1) Cons.prems(2)]
  show ?case by simp
qed


lemma finish_possible:
  "raised s = None \<Longrightarrow> i < length (tasks s) \<Longrightarrow> snd (tasks s ! i) = Running \<Longrightarrow>
   \<exists>s'. finish i w s = Some s'"
  by (simp add: finish_def split: prod.splits)

lemma progress:
  assumes "sound s" "\<not> final s" "0 < sem_value s + running s"
  shows "\<exists>ev s'. fire ev s = Some s'"
proof -
  have r: "raised s = None" and q: "list_all (\<lambda>x. \<not> isl x) (done_queue s)"
    using assms(1) by (simp_all add: sound_def)
  show ?thesis
  proof (cases "done_queue s")
    case (Cons x xs)
    with q obtain rr where "x = Inr rr" by (cases x) auto
    with Cons r have "\<exists>s'. collect s = Some s'" by (simp add: collect_def)
    then have "\<exists>s'. fire Collect s = Some s'" by simp
    then show ?thesis by blast
  next
    case Nil
    with assms(2) r have "\<not> list_all (\<lambda>tp. snd tp = Completed) (tasks s)"
      by (simp add: final_def)
    then obtain i where i: "i < length (tasks s)" "snd (tasks s ! i) \<noteq> Completed"
      by (auto simp: list_all_length)
    obtain w :: world where True by simp
    show ?thesis
    proof (cases "running s = 0")
      case False
      then have "filter (\<lambda>tp. snd tp = Running) (tasks s) \<noteq> []"
        by (simp add: running_def)
      then obtain tp where "tp \<in> set (tasks s)" "snd tp = Running"
        by (metis (mono_tags, lifting) filter_False)
      then obtain j where "j < length (tasks s)" "snd (tasks s ! j) = Running"
        by (auto simp: in_set_conv_nth)
      from finish_possible[OF r this, of w] have "\<exists>s'. fire (Finish j w) s = Some s'" by simp
      then show ?thesis by blast
    next
      case True
      then have "filter (\<lambda>tp. snd tp = Running) (tasks s) = []"
        by (simp add: running_def)
      then have "snd (tasks s ! i) \<noteq> Running"
        using i(1) by (metis (mono_tags, lifting) filter_empty_conv nth_mem)
      with i(2) have p: "snd (tasks s ! i) = Pending" by (cases "snd (tasks s ! i)") auto
      from True assms(3) have "0 < sem_value s" by simp
      with r i(1) p have "\<exists>s'. acquire i s = Some s'" by (simp add: acquire_def)
      then have "\<exists>s'. fire (Acquire i) s = Some s'" by simp
      then show ?thesis by blast
    qed
  qed
qed

lemma completes:
  "sound s \<Longrightarrow> 0 < sem_value s + running s \<Longrightarrow> \<exists>evs s'. exec evs s = Some s' \<and> final s'"
proof (induction "remaining s" arbitrary: s rule: less_induct)
  case less
  show ?case
  proof (cases "final s")
    case True
    then have "exec [] s = Some s \<and> final s" by simp
    then show ?thesis by blast
  next
    case False
    from progress[OF less.prems(1) False less.prems(2)]
    obtain ev s1 where f: "fire ev s = Some s1" by blast
    have s1: "sound s1" by (rule fire_sound[OF f less.prems(1)])
    have lt: "remaining s1 < remaining s" using fire_gate(3)[OF f less.prems(1)] by simp
    have pos: "0 < sem_value s1 + running s1"
      using fire_gate(1)[OF f less.prems(1)] less.prems(2) by simp
    from less.hyps[OF lt s1 pos] obtain evs s' where "exec evs s1 = Some s'" "final s'"
      by blast
    with f have "exec (ev # evs) s = Some s' \<and> final s'" by simp
    then show ?thesis by blast
  qed
qed

lemma init_state:
  assumes "run_recon_init targets concurrency = Inr s0"
  shows "0 \<le> concurrency" "sound s0" "sem_value s0 + running s0 = nat concurrency"
    "map fst (tasks s0) = targets" "remaining s0 = 3 * length targets"
proof -
  from assms have c: "\<not> concurrency < 0"
    and s0: "s0 = \<lparr>sem_value = nat concurrency, tasks = map (\<lambda>t. (t, Pending)) targets,
                done_queue = [], results = [], raised = None, trace = []\<rparr>"
    by (auto simp: run_recon_init_def split: if_splits)
  show "0 \<le> concurrency" using c by simp
  show "sound s0"
    using s0 by (simp add: sound_def queued_targets_def completed_targets_def filter_map o_def)
  show "sem_value s0 + running s0 = nat concurrency"
    using s0 by (simp add: running_def filter_map o_def)
  show "map fst (tasks s0) = targets" using s0 by (simp add: o_def)
  show "remaining s0 = 3 * length targets"
    using s0 by (simp add: remaining_def pending_def running_def filter_map o_def)
qed

lemma final_batch:
  assumes "sound s" "final s"
  shows "mset (map target (results s)) = mset (map fst (tasks s))"
proof -
  from assms have "list_all (\<lambda>tp. snd tp = Completed) (tasks s)" "done_queue s = []"
    by (simp_all add: sound_def final_def)
  then have "completed_targets s = mset (map fst (tasks s))" "queued_targets s = {#}"
    by (simp_all add: completed_targets_def queued_targets_def list_all_iff)
  with assms(1) show ?thesis by (simp add: sound_def)
qed

section \<open>Properties of the report\<close>








section \<open>Properties of the command line\<close>

lemma write_error_example: "write_error files_example path = None"
  by (simp add: files_example_def)

lemma strip_examples:
  "strip ''a.test\<newline>'' = ''a.test''" "strip ''\<newline>'' = []"
  "strip '' b.test \<newline>'' = ''b.test''"
  by (simp_all add: strip_def isspace_def)

lemma collect_targets_file:
  "collect_targets files_example \<lparr>args_target = tgt, args_list = Some ''targets.txt'', args_concurrency = c\<rparr> =
     (if given tgt then ([], Inr (Some [the tgt]))
      else ([OpenRead ''targets.txt''], Inr (Some [''a.test'', ''b.test''])))"
  by (simp add: collect_targets_def files_example_def comp_defs strip_examples)

lemma starting_line_examples:
  "starting_line [] 0 = ''[INFO] Starting SpecterScope recon for 0 target(s) with concurrency=0''"
  "starting_line [x] 0 = ''[INFO] Starting SpecterScope recon for 1 target(s) with concurrency=0''"
  "starting_line [x] 1 = ''[INFO] Starting SpecterScope recon for 1 target(s) with concurrency=1''"
  "starting_line [x, y] 5 = ''[INFO] Starting SpecterScope recon for 2 target(s) with concurrency=5''"
  "starting_line [x, y] (- 1) = ''[INFO] Starting SpecterScope recon for 2 target(s) with concurrency=-1''"
  by (simp_all add: starting_line_def str_nat.simps str_int_def digit_char_def)

lemma fire_no_open:
  assumes "fire ev s = Some s'" "\<forall>p. OpenRead p \<notin> set (trace s)"
  shows "\<forall>p. OpenRead p \<notin> set (trace s')"
proof (cases ev)
  case (Acquire i)
  with assms show ?thesis by (auto simp: acquire_def split: if_splits)
next
  case (Finish i w)
  with assms show ?thesis by (auto simp: finish_def recon_target_eq split: if_splits)
next
  case Collect
  with assms show ?thesis
    by (auto simp: collect_def split: if_splits list.splits sum.splits)
qed

lemma exec_no_open:
  "exec evs s = Some s' \<Longrightarrow> \<forall>p. OpenRead p \<notin> set (trace s) \<Longrightarrow>
   \<forall>p. OpenRead p \<notin> set (trace s')"
proof (induction evs arbitrary: s)
  case Nil
  then show ?case by simp
next
  case (Cons ev evs)
  then obtain s1 where s1: "fire ev s = Some s1" "exec evs s1 = Some s'"
    by (auto split: option.splits)
  from Cons.IH[OF s1(2) fire_no_open[OF s1(1) Cons.prems(2)]] show ?case .
qed

lemma run_recon_no_open:
  assumes "run_recon targets concurrency evs = Some (tr, out)"
  shows "OpenRead p \<notin> set tr"
proof (cases "run_recon_init targets concurrency")
  case (Inl e)
  with assms show ?thesis by (simp add: run_recon_def)
next
  case (Inr s0)
  then have t0: "\<forall>p. OpenRead p \<notin> set (trace s0)"
    by (auto simp: run_recon_init_def split: if_splits)
  from assms Inr obtain s where s: "exec evs s0 = Some s" and tr: "tr = trace s"
    by (auto simp: run_recon_def split: option.splits)
  from exec_no_open[OF s t0] tr show ?thesis by simp
qed

lemma negative_gate:
  "concurrency < 0 \<Longrightarrow>
   run_recon targets concurrency evs =
     Some ([], Raised (ValueError ''Semaphore initial value must be >= 0''))"
  by (simp add: run_recon_def run_recon_init_def)

lemma zero_gate_stuck:
  assumes "targets \<noteq> []"
  shows "run_recon targets 0 [] = Some ([], Waiting)"
    and "run_recon targets 0 (ev # evs) = None"
proof -
  let ?s0 = "\<lparr>sem_value = 0, tasks = map (\<lambda>t. (t, Pending)) targets,
                done_queue = [], results = [], raised = None, trace = []\<rparr>"
  have i: "run_recon_init targets 0 = Inr ?s0" by (simp add: run_recon_init_def)
  have "\<not> list_all (\<lambda>tp. snd tp = Completed) (map (\<lambda>t. (t, Pending)) targets)"
    using assms by (cases targets) simp_all
  then have "\<not> final ?s0" by (simp add: final_def)
  then show "run_recon targets 0 [] = Some ([], Waiting)"
    using i by (simp add: run_recon_def)
  have "fire ev ?s0 = None"
    by (cases ev) (auto simp: acquire_def finish_def collect_def)
  then show "run_recon targets 0 (ev # evs) = None"
    using i by (simp add: run_recon_def)
qed

lemma zero_gate_no_targets: "run_recon [] 0 [] = Some ([], Returned [])"
  by (simp add: run_recon_def run_recon_init_def final_def)

section \<open>Claims\<close>

subsection \<open>The target probe\<close>

text \<open>
  Claim C3. The target probe never fails. For every state of the outside world and every
  target, \<open>recon_target\<close> returns a record (it never raises); the record carries the
  target and the time of completion; and each lookup that failed or timed out leaves an
  empty value in its field: an empty list under the category for a failed resolution, an
  empty mapping for a failed registry lookup or a failed header fetch.
\<close>

theorem recon_target_never_fails:
  "\<exists>calls r. recon_target w t = (calls, Inr r) \<and> target r = t \<and> timestamp r = utcnow w \<and>
     (\<forall>e. resolve w t ''A'' = Inl e \<longrightarrow> map_of (dns_records r) ''A'' = Some []) \<and>
     (\<forall>e. resolve w t ''MX'' = Inl e \<longrightarrow> map_of (dns_records r) ''MX'' = Some []) \<and>
     (\<forall>e. whois w t = Inl e \<longrightarrow> whois_data r = []) \<and>
     (\<forall>e. session_get w (''http://'' @ t) 5 = Inl e \<longrightarrow> http_headers r = [])"
  by (auto simp: recon_target_eq)

theorem recon_target_never_fails_witness:
  "\<exists>calls r. recon_target world_down ''a.test'' = (calls, Inr r) \<and> target r = ''a.test'' \<and>
     timestamp r = utcnow world_down \<and> map_of (dns_records r) ''A'' = Some [] \<and>
     map_of (dns_records r) ''MX'' = Some [] \<and> whois_data r = [] \<and> http_headers r = []"
  using recon_target_never_fails [of world_down "''a.test''"]
  by (simp add: world_down_def session_get_def)

subsection \<open>Name resolution\<close>

text \<open>
  Claim C5. \<open>dns_lookup\<close> always attempts the two categories, A then MX, whatever the
  first attempt gave, and always returns. The list under A is a function of the outcome of
  the A query alone and the list under MX a function of the outcome of the MX query alone;
  a query that raises gives the empty list for its category.
\<close>

theorem dns_lookup_categories:
  "\<exists>fa fm.
     (\<forall>w t. dns_lookup w t =
        ([DnsQuery t ''A'', DnsQuery t ''MX''],
         Inr [(''A'', fa (resolve w t ''A'')), (''MX'', fm (resolve w t ''MX''))])) \<and>
     (\<forall>e. fa (Inl e) = []) \<and> (\<forall>e. fm (Inl e) = []) \<and>
     (\<forall>answers. fa (Inr answers) = map to_text answers) \<and>
     (\<forall>ps. fm (Inr (map (\<lambda>(p, x). MX_record p x) ps)) = map snd ps)"
proof -
  let ?fa = "\<lambda>r. case r of Inl e \<Rightarrow> [] | Inr answers \<Rightarrow> map to_text answers"
  let ?fm = "\<lambda>r. case r of Inl e \<Rightarrow> [] | Inr answers \<Rightarrow>
      (case comprehension exchange_to_text answers of Inl e \<Rightarrow> [] | Inr texts \<Rightarrow> texts)"
  have mx: "comprehension exchange_to_text (map (\<lambda>(p, x). MX_record p x) ps) = Inr (map snd ps)"
    for ps :: "(nat \<times> string) list"
    by (induction ps) auto
  have "(\<forall>w t. dns_lookup w t =
        ([DnsQuery t ''A'', DnsQuery t ''MX''],
         Inr [(''A'', ?fa (resolve w t ''A'')), (''MX'', ?fm (resolve w t ''MX''))])) \<and>
     (\<forall>e. ?fa (Inl e) = []) \<and> (\<forall>e. ?fm (Inl e) = []) \<and>
     (\<forall>answers. ?fa (Inr answers) = map to_text answers) \<and>
     (\<forall>ps. ?fm (Inr (map (\<lambda>(p, x). MX_record p x) ps)) = map snd ps)"
    by (simp add: dns_lookup_eq mx)
  then show ?thesis by blast
qed

text \<open>
  Claim C9. The \<open>dns_records\<close> of the record a probe produces has exactly the keys A and
  MX, whatever the resolutions gave.
\<close>

theorem dns_records_keys:
  "\<exists>calls r. recon_target w t = (calls, Inr r) \<and> map fst (dns_records r) = [''A'', ''MX'']"
  by (simp add: recon_target_eq)

subsection \<open>Registry lookup\<close>

text \<open>
  Claim C6. \<open>whois_lookup\<close> always returns a mapping and never raises. When the registry
  query fails the mapping is empty. When it succeeds (its entry is a dictionary, so its keys
  are distinct) the mapping has, in the entry's order, the fields whose value is true, each
  with the \<^verbatim>\<open>str()\<close> of its value; fields with a false value are left out.
\<close>

theorem whois_lookup_mapping:
  "(\<exists>d. whois_lookup w t = ([WhoisQuery t], Inr d)) \<and>
   (\<forall>e. whois w t = Inl e \<longrightarrow> whois_lookup w t = ([WhoisQuery t], Inr [])) \<and>
   (\<forall>entry. whois w t = Inr entry \<longrightarrow> distinct (map fst entry) \<longrightarrow>
      whois_lookup w t =
        ([WhoisQuery t],
         Inr (map (\<lambda>(k, v). (k, str_of v)) (filter (\<lambda>(k, v). truthy v) entry))))"
  using whois_comprehension_distinct [of "[]"]
  by (simp add: whois_lookup_eq)

theorem whois_lookup_mapping_witness:
  "whois_lookup world_up ''a.test'' = ([WhoisQuery ''a.test''], Inr [(''domain_name'', ''A.TEST'')]) \<and>
   whois_lookup world_down ''a.test'' = ([WhoisQuery ''a.test''], Inr [])"
  using whois_lookup_mapping [of world_up "''a.test''"] whois_lookup_mapping [of world_down "''a.test''"]
  by (simp add: world_up_def world_down_def)

subsection \<open>Header fetch\<close>



subsection \<open>The scheduler\<close>

text \<open>
  Claim C1. With a concurrency bound of at least 1, \<open>run_recon\<close> returns a batch with one
  record for each occurrence of a target in the input. Stated on the runs of the event loop:
  the empty schedule is a run; every run has at most three events for each target; no run
  raises; every run can be continued to a run at whose end \<open>run_recon\<close> returns (no run
  is stuck); and whenever \<open>run_recon\<close> returns, the batch is as long as the list of
  targets and the targets of its records are the input targets, duplicates included. The
  outcomes of the lookups are arbitrary throughout, so no failed lookup removes a record.
\<close>

theorem run_recon_batch:
  assumes "1 \<le> concurrency"
  shows "run_recon targets concurrency [] \<noteq> None \<and>
    (\<forall>evs tr out. run_recon targets concurrency evs = Some (tr, out) \<longrightarrow>
        length evs \<le> 3 * length targets \<and>
        (\<forall>e. out \<noteq> Raised e) \<and>
        (\<exists>evs' tr' rs. run_recon targets concurrency (evs @ evs') = Some (tr', Returned rs)) \<and>
        (\<forall>rs. out = Returned rs \<longrightarrow>
           length rs = length targets \<and> mset (map target rs) = mset targets))"
proof -
  obtain s0 where s0: "run_recon_init targets concurrency = Inr s0"
    using assms by (simp add: run_recon_init_def)
  note i = init_state[OF s0]
  have first: "run_recon targets concurrency [] \<noteq> None"
    using s0 by (simp add: run_recon_def)
  have rest: "length evs \<le> 3 * length targets \<and>
        (\<forall>e. out \<noteq> Raised e) \<and>
        (\<exists>evs' tr' rs. run_recon targets concurrency (evs @ evs') = Some (tr', Returned rs)) \<and>
        (\<forall>rs. out = Returned rs \<longrightarrow>
           length rs = length targets \<and> mset (map target rs) = mset targets)"
    if run: "run_recon targets concurrency evs = Some (tr, out)" for evs tr out
  proof -
    from run s0 obtain s where s: "exec evs s0 = Some s"
      and out: "out = (case raised s of Some e \<Rightarrow> Raised e
                       | None \<Rightarrow> if final s then Returned (results s) else Waiting)"
      by (auto simp: run_recon_def split: option.splits)
    note inv = exec_invariant[OF s i(2)]
    have snd_s: "sound s" using inv by simp
    have r: "raised s = None" using snd_s by (simp add: sound_def)
    have len: "length evs \<le> 3 * length targets" using inv i(5) by simp
    have noraise: "\<forall>e. out \<noteq> Raised e" using out r by simp
    have gate: "0 < sem_value s + running s" using inv i(3) assms by simp
    from completes[OF snd_s gate] obtain evs' s' where
      c: "exec evs' s = Some s'" "final s'" by blast
    have "sound s'" using exec_invariant[OF c(1) snd_s] by simp
    then have "raised s' = None" by (simp add: sound_def)
    with c s s0 have "run_recon targets concurrency (evs @ evs') =
        Some (trace s', Returned (results s'))"
      by (simp add: run_recon_def exec_append)
    then have ext: "\<exists>evs' tr' rs. run_recon targets concurrency (evs @ evs') =
        Some (tr', Returned rs)" by blast
    have batch: "length rs = length targets \<and> mset (map target rs) = mset targets"
      if "out = Returned rs" for rs
    proof -
      from that out r have f: "final s" and rs: "rs = results s"
        by (auto split: if_splits)
      have m: "mset (map target rs) = mset targets"
        using final_batch[OF snd_s f] inv i(4) rs by simp
      then have "size (mset (map target rs)) = size (mset targets)" by simp
      then show ?thesis using m by simp
    qed
    show ?thesis using len noraise ext batch by blast
  qed
  show ?thesis using first rest by blast
qed

theorem run_recon_batch_witness:
  "(1::int) \<le> 1 \<and>
   (\<exists>tr rs. run_recon [''a.test'', ''a.test''] 1 schedule_two = Some (tr, Returned rs) \<and>
      length rs = 2 \<and> mset (map target rs) = mset [''a.test'', ''a.test''])"
proof -
  have run: "\<exists>tr rs. run_recon [''a.test'', ''a.test''] 1 schedule_two = Some (tr, Returned rs)"
    by (simp add: run_recon_def run_recon_init_def schedule_two_def acquire_def finish_def
        collect_def final_def recon_target_eq)
  have one: "(1::int) \<le> 1" by simp
  from run run_recon_batch [OF one, of "[''a.test'', ''a.test'']"] show ?thesis
    by fastforce
qed

text \<open>
  Claim C2. In every state a run of \<open>run_recon\<close> with concurrency bound N reaches, the
  number of running probes is at most N, and together with the counter of the semaphore it
  is exactly N. A probe starts running only by taking the semaphore, which needs a positive
  counter and lowers it by one; a probe that completes raises it by one.
\<close>

theorem running_bounded:
  assumes "run_recon_init targets concurrency = Inr s0" "exec evs s0 = Some s"
  shows "int (running s) \<le> concurrency \<and> running s + sem_value s = nat concurrency \<and>
    (\<forall>i s'. acquire i s = Some s' \<longrightarrow>
       0 < sem_value s \<and> sem_value s' + 1 = sem_value s \<and> running s' = running s + 1) \<and>
    (\<forall>i w s'. finish i w s = Some s' \<longrightarrow>
       sem_value s' = sem_value s + 1 \<and> running s' + 1 = running s)"
proof -
  note i = init_state[OF assms(1)]
  note inv = exec_invariant[OF assms(2) i(2)]
  have "running s + sem_value s = nat concurrency" using inv i(3) by simp
  moreover from this i(1) have "int (running s) \<le> concurrency" by linarith
  moreover have "0 < sem_value s \<and> sem_value s' + 1 = sem_value s \<and> running s' = running s + 1"
    if "acquire i s = Some s'" for i s'
    using acquire_effect(1,2,3)[OF that] by simp
  moreover have "sem_value s' = sem_value s + 1 \<and> running s' + 1 = running s"
    if "finish i w s = Some s'" for i w s'
    using finish_effect(1,2)[OF that] by simp
  ultimately show ?thesis by blast
qed

theorem running_bounded_witness:
  "\<exists>s0 s. run_recon_init [''a.test'', ''b.test'', ''c.test''] 2 = Inr s0 \<and>
     exec [Acquire 0, Acquire 2] s0 = Some s \<and> running s = 2 \<and> sem_value s = 0 \<and>
     acquire 1 s = None"
proof -
  obtain s0 where s0: "run_recon_init [''a.test'', ''b.test'', ''c.test''] 2 = Inr s0"
    by (simp add: run_recon_init_def)
  then obtain s where s: "exec [Acquire 0, Acquire 2] s0 = Some s"
    by (auto simp: run_recon_init_def acquire_def)
  from s0 s have r: "running s = 2"
    by (auto simp: run_recon_init_def acquire_def running_def)
  from running_bounded [OF s0 s] r have v: "sem_value s = 0" by simp
  then have "acquire 1 s = None" by (simp add: acquire_def)
  with s0 s r v show ?thesis by blast
qed

subsection \<open>The report\<close>



subsection \<open>The command line\<close>

text \<open>
  Claim C10, with the condition under which it holds. When the single target option is
  given with a value that is not the empty string, \<open>run_cli\<close> proceeds with exactly
  that one target, whatever the list option and the files are: the result does not depend on
  them, and no file is opened for reading in any run.
\<close>

theorem single_target_precedence:
  assumes "args_target a = Some t" "t \<noteq> []"
  shows "collect_targets fs a = ([], Inr (Some [t])) \<and>
     run_cli fs evs a = run_cli (fs\<lparr>read_lines := rl\<rparr>) evs (a\<lparr>args_list := l\<rparr>) \<and>
     (\<forall>tr out. run_cli fs evs a = Some (tr, out) \<longrightarrow> (\<forall>p. OpenRead p \<notin> set tr))"
proof -
  have ct: "collect_targets fs a = ([], Inr (Some [t]))"
    using assms by (simp add: collect_targets_def ret_def)
  have ct': "collect_targets (fs\<lparr>read_lines := rl\<rparr>) (a\<lparr>args_list := l\<rparr>) = ([], Inr (Some [t]))"
    using assms by (simp add: collect_targets_def ret_def)
  have same: "run_cli fs evs a = run_cli (fs\<lparr>read_lines := rl\<rparr>) evs (a\<lparr>args_list := l\<rparr>)"
    by (auto simp: run_cli_def ct ct' split: option.splits outcome.splits)
  have none: "OpenRead p \<notin> set tr" if "run_cli fs evs a = Some (tr, out)" for tr out p
  proof (cases "run_recon [t] (args_concurrency a) evs")
    case None
    with that show ?thesis by (simp add: run_cli_def ct)
  next
    case (Some x)
    obtain l' o' where x: "x = (l', o')" by (cases x)
    have "OpenRead p \<notin> set l'" using Some x by (simp add: run_recon_no_open)
    with that Some x show ?thesis
      by (cases o') (auto simp: run_cli_def ct split: option.splits)
  qed
  show ?thesis using ct same none by blast
qed

theorem single_target_precedence_witness:
  "collect_targets files_example args_both = ([], Inr (Some [''a.test''])) \<and>
   (\<exists>tr. run_cli files_example [Acquire 0, Finish 0 world_up, Collect] args_both =
            Some (tr, Returned ()) \<and> (\<forall>p. OpenRead p \<notin> set tr))"
proof -
  have t: "args_target args_both = Some ''a.test''" "''a.test'' \<noteq> []"
    by (simp_all add: args_both_def)
  have run: "\<exists>tr. run_cli files_example [Acquire 0, Finish 0 world_up, Collect] args_both =
      Some (tr, Returned ())"
    by (simp add: run_cli_def args_both_def collect_targets_file run_recon_def
        run_recon_init_def acquire_def finish_def collect_def final_def recon_target_eq
        write_error_example)
  from run single_target_precedence [OF t, of files_example
      "[Acquire 0, Finish 0 world_up, Collect]"]
  show ?thesis by fastforce
qed

text \<open>
  The value of the single target option is tested for truth, not for presence, so the
  condition is needed: with \<^verbatim>\<open>-t ""\<close> and \<^verbatim>\<open>-l targets.txt\<close> the list file is opened
  and the run proceeds with the two targets of the file.
\<close>

theorem empty_target_reads_list:
  "run_cli files_example [] args_empty_target =
     Some ([OpenRead ''targets.txt'',
            Print ''[INFO] Starting SpecterScope recon for 2 target(s) with concurrency=5''],
           Waiting)"
  by (simp add: run_cli_def args_empty_target_def collect_targets_file run_recon_def
      run_recon_init_def final_def starting_line_examples)

text \<open>
  Claim C4, as the program behaves. No concurrency bound is rejected by \<open>run_cli\<close>.
  Once the targets are collected, which opens the list file when the targets come from one
  and does nothing else, the starting line is printed whatever the bound is. A negative
  bound then ends the run with the \<open>ValueError\<close> of the semaphore's constructor:
  nothing is looked up and no report is written. A bound of zero is accepted: with at least
  one target the run waits and no event of the loop is ever possible, so it never returns;
  with no target it writes the empty report and returns.
\<close>

theorem concurrency_below_one:
  assumes "collect_targets fs a = (l, Inr (Some targets))"
  shows "(\<forall>x \<in> set l. x = OpenRead (the (args_list a))) \<and>
    (args_concurrency a < 0 \<longrightarrow>
       run_cli fs evs a =
         Some (l @ [Print (starting_line targets (args_concurrency a))],
               Raised (ValueError ''Semaphore initial value must be >= 0''))) \<and>
    (args_concurrency a = 0 \<longrightarrow> targets \<noteq> [] \<longrightarrow>
       run_cli fs [] a = Some (l @ [Print (starting_line targets 0)], Waiting) \<and>
       (\<forall>ev evs'. run_cli fs (ev # evs') a = None)) \<and>
    (args_concurrency a = 0 \<longrightarrow> targets = [] \<longrightarrow> write_error fs report_file = None \<longrightarrow>
       run_cli fs [] a =
         Some (l @ [Print (starting_line [] 0), WriteFile report_file (JArr []),
                    Print ''[INFO] Recon complete. Results saved to specterscope_report.json''],
               Returned ()))"
proof -
  have io: "\<forall>x \<in> set l. x = OpenRead (the (args_list a))"
    using assms by (auto simp: collect_targets_def comp_defs split: if_splits sum.splits)
  have neg: "run_cli fs evs a =
         Some (l @ [Print (starting_line targets (args_concurrency a))],
               Raised (ValueError ''Semaphore initial value must be >= 0''))"
    if "args_concurrency a < 0"
    using that assms by (simp add: run_cli_def negative_gate)
  have zero: "run_cli fs [] a = Some (l @ [Print (starting_line targets 0)], Waiting) \<and>
       (\<forall>ev evs'. run_cli fs (ev # evs') a = None)"
    if "args_concurrency a = 0" "targets \<noteq> []"
    using that assms zero_gate_stuck[OF that(2)] by (simp add: run_cli_def)
  have none: "run_cli fs [] a =
         Some (l @ [Print (starting_line [] 0), WriteFile report_file (JArr []),
                    Print ''[INFO] Recon complete. Results saved to specterscope_report.json''],
               Returned ())"
    if "args_concurrency a = 0" "targets = []" "write_error fs report_file = None"
    using that assms by (simp add: run_cli_def zero_gate_no_targets)
  show ?thesis using io neg zero none by blast
qed

theorem concurrency_below_one_witness:
  "run_cli files_example [] (args_zero\<lparr>args_concurrency := - 1\<rparr>) =
     Some ([Print ''[INFO] Starting SpecterScope recon for 1 target(s) with concurrency=-1''],
           Raised (ValueError ''Semaphore initial value must be >= 0'')) \<and>
   run_cli files_example [] args_zero =
     Some ([Print ''[INFO] Starting SpecterScope recon for 1 target(s) with concurrency=0''],
           Waiting) \<and>
   run_cli files_example [Acquire 0] args_zero = None"
proof -
  have c: "collect_targets files_example args_zero = ([], Inr (Some [''a.test'']))"
    "collect_targets files_example (args_zero\<lparr>args_concurrency := - 1\<rparr>) =
       ([], Inr (Some [''a.test'']))"
    by (simp_all add: collect_targets_def args_zero_def ret_def)
  have s: "starting_line [''a.test''] (- 1) =
      ''[INFO] Starting SpecterScope recon for 1 target(s) with concurrency=-1''"
    by (simp add: starting_line_def str_nat.simps str_int_def digit_char_def)
  from concurrency_below_one [OF c(1), of "[]"] concurrency_below_one [OF c(2), of "[]"] s
  show ?thesis by (simp add: args_zero_def starting_line_examples)
qed

text \<open>
  So a bound below 1 is not rejected before input and output take place: with the bound 0
  and an empty list file the run reads the file, writes a report and returns normally;
  with the bound \<open>-1\<close> the list file has been read and the starting line printed when the
  run ends with \<open>ValueError\<close>.
\<close>

theorem concurrency_zero_accepted:
  "run_cli files_example [] args_zero_empty =
     Some ([OpenRead ''empty.txt'',
            Print ''[INFO] Starting SpecterScope recon for 0 target(s) with concurrency=0'',
            WriteFile ''specterscope_report.json'' (JArr []),
            Print ''[INFO] Recon complete. Results saved to specterscope_report.json''],
           Returned ()) \<and>
   run_cli files_example [] args_negative =
     Some ([OpenRead ''targets.txt'',
            Print ''[INFO] Starting SpecterScope recon for 2 target(s) with concurrency=-1''],
           Raised (ValueError ''Semaphore initial value must be >= 0''))"
proof -
  have "collect_targets files_example args_zero_empty = ([OpenRead ''empty.txt''], Inr (Some []))"
    by (simp add: collect_targets_def files_example_def args_zero_empty_def comp_defs)
  then have a: "run_cli files_example [] args_zero_empty =
     Some ([OpenRead ''empty.txt'',
            Print ''[INFO] Starting SpecterScope recon for 0 target(s) with concurrency=0'',
            WriteFile ''specterscope_report.json'' (JArr []),
            Print ''[INFO] Recon complete. Results saved to specterscope_report.json''],
           Returned ())"
    by (simp add: run_cli_def zero_gate_no_targets args_zero_empty_def starting_line_examples
        files_example_def report_file_def)
  have b: "run_cli files_example [] args_negative =
     Some ([OpenRead ''targets.txt'',
            Print ''[INFO] Starting SpecterScope recon for 2 target(s) with concurrency=-1''],
           Raised (ValueError ''Semaphore initial value must be >= 0''))"
    by (simp add: run_cli_def args_negative_def collect_targets_file negative_gate
        starting_line_examples)
  from a b show ?thesis by simp
qed

end
